theory Spec2Isabelle
  imports Complex_Main
begin

section \<open>cEvent: a periodic-task scheduler\<close>

text \<open>
  The development embeds \<^verbatim>\<open>cevent/cevent.py\<close>: the classes \<^verbatim>\<open>EventThread\<close>,
  \<^verbatim>\<open>Event\<close> and \<^verbatim>\<open>EventManager\<close>. Every method becomes a function that takes the
  object and the rest of the interpreter state and returns them updated; a raised
  exception is returned as a value next to the state it leaves behind, because Python
  keeps every assignment made before the raise.

  What lies outside the file is an input of the model:
  \<^item> \<^verbatim>\<open>time.time()\<close>: the \<open>n\<close>-th reading of the system clock is \<open>clock s n\<close>, and
    \<open>ticks s\<close> counts the readings taken so far.
  \<^item> Floating-point addition: \<open>fadd s\<close> is the rounded sum the platform computes; the
    model only knows that adding zero changes nothing.
  \<^item> The thread scheduler: \<open>sched s i k\<close> says whether the started thread \<open>i\<close> gets to
    run when the scheduling point number \<open>k\<close> is reached; \<open>steps s\<close> counts the
    scheduling points passed so far. A thread that runs, runs its target to the end.
    Scheduling points are the start of a thread and every \<^verbatim>\<open>is_alive()\<close> test; a
    \<^verbatim>\<open>threading.Thread.join\<close> waits, so there the thread runs in any case.
  \<^item> User code: a callable has a \<^verbatim>\<open>__name__\<close> or not, and a body. The body may change
    the user world \<open>'w\<close> and read the clock, and it may read the \<^verbatim>\<open>_lastCallTime\<close> of its
    own task, which it gets as its first argument; it returns a value or raises. It does
    not call back into the manager that runs it.
  \<^item> Python has two layers of exceptions: \<^verbatim>\<open>except Exception\<close> catches the instances of
    \<^verbatim>\<open>Exception\<close> and lets the others (\<^verbatim>\<open>SystemExit\<close>, \<^verbatim>\<open>KeyboardInterrupt\<close>,
    \<^verbatim>\<open>GeneratorExit\<close>) through. Both handlers of the file are written that way.
  \<^item> Logging and printing are dropped, but not the evaluation of their arguments.
\<close>

subsection \<open>Exceptions, threads, interpreter state\<close>

datatype exn = is_Exception: Exception string | BaseException string

definition RuntimeError :: exn where
  "RuntimeError = Exception ''RuntimeError''"

definition AttributeError :: exn where
  "AttributeError = Exception ''AttributeError''"

text \<open>\<^verbatim>\<open>threading.Thread\<close>: identity, daemon flag, \<^verbatim>\<open>is_alive()\<close>.\<close>

record PyThread =
  ident :: nat
  daemon :: bool
  alive :: bool

text \<open>\<^verbatim>\<open>class EventThread(threading.Thread)\<close> adds the captured exception and the joined mark.\<close>

record EventThread = PyThread +
  exception :: "exn option"
  isJoined :: bool

text \<open>
  The thread that runs \<^verbatim>\<open>_execute\<close>, a plain \<^verbatim>\<open>threading.Thread\<close>. \<open>progress\<close> is
  where that thread stands: \<open>None\<close> before it has entered \<^verbatim>\<open>_execute\<close>, \<open>Some i\<close> when
  it is inside the \<open>while\<close> loop and has polled the first \<open>i\<close> tasks of the current pass.
\<close>

record Driver = PyThread +
  progress :: "nat option"

record 'w sys =
  world :: 'w
  clock :: "nat \<Rightarrow> real"
  ticks :: nat
  fadd :: "real \<Rightarrow> real \<Rightarrow> real"
  sched :: "nat \<Rightarrow> nat \<Rightarrow> bool"
  steps :: nat
  next_ident :: nat

definition time_time :: "'w sys \<Rightarrow> real \<times> 'w sys" where
  "time_time s = (clock s (ticks s), s\<lparr>ticks := Suc (ticks s)\<rparr>)"

text \<open>
  Python's \<open>+\<close> on the two time values. A sum with zero is exact for every
  number type; any other sum is the platform's rounded float sum.
\<close>

definition float_add :: "'w sys \<Rightarrow> real \<Rightarrow> real \<Rightarrow> real" where
  "float_add s a b = (if a = 0 then b else if b = 0 then a else fadd s a b)"

text \<open>
  Running user code in state \<open>s\<close>: of the state the code returns, the world and the
  number of clock readings are taken over.
\<close>

definition run_user :: "('w sys \<Rightarrow> 'r \<times> 'w sys) \<Rightarrow> 'w sys \<Rightarrow> 'r \<times> 'w sys" where
  "run_user f s = (let (r, s') = f s in (r, s\<lparr>world := world s', ticks := ticks s'\<rparr>))"

text \<open>
  \<^verbatim>\<open>EventThread.__init__\<close>: a new thread object, not yet started, with
  \<^verbatim>\<open>exception = None\<close>, \<^verbatim>\<open>setDaemon(True)\<close> and \<^verbatim>\<open>isJoined = False\<close>.
\<close>

definition EventThread_init :: "'w sys \<Rightarrow> EventThread \<times> 'w sys" where
  "EventThread_init s =
     (\<lparr>ident = next_ident s, daemon = True, alive = False, exception = None, isJoined = False\<rparr>,
      s\<lparr>next_ident := Suc (next_ident s)\<rparr>)"

text \<open>
  \<^verbatim>\<open>threading.Thread(target=...)\<close> as \<^verbatim>\<open>EventManager.start\<close> builds it: the daemon flag
  is not set, so the thread inherits the flag of the thread that creates it.
\<close>

definition Thread_init :: "bool \<Rightarrow> 'w sys \<Rightarrow> Driver \<times> 'w sys" where
  "Thread_init creator_daemon s =
     (\<lparr>ident = next_ident s, daemon = creator_daemon, alive = False, progress = None\<rparr>,
      s\<lparr>next_ident := Suc (next_ident s)\<rparr>)"

subsection \<open>Event\<close>

datatype 'v retval = RetThread EventThread | RetVal 'v

record ('w, 'v) pycallable =
  fn_name :: "string option"
  fn_body :: "real \<Rightarrow> 'w sys \<Rightarrow> (exn + 'v) \<times> 'w sys"

record ('w, 'v) Event =
  callable :: "('w, 'v) pycallable"
  timeBetweenCalls :: real
  callback :: "('v \<Rightarrow> real \<Rightarrow> 'w sys \<Rightarrow> (exn + 'v) \<times> 'w sys) option"
  spawnThread :: bool
  lastCallTime :: real
  threads :: "EventThread list"

definition Event_init ::
  "('w, 'v) pycallable \<Rightarrow> real \<Rightarrow> bool
     \<Rightarrow> ('v \<Rightarrow> real \<Rightarrow> 'w sys \<Rightarrow> (exn + 'v) \<times> 'w sys) option \<Rightarrow> ('w, 'v) Event" where
  "Event_init thingToCall tbc spawn cb =
     \<lparr>callable = thingToCall, timeBetweenCalls = tbc, callback = cb, spawnThread = spawn,
      lastCallTime = 0, threads = []\<rparr>"

text \<open>\<^verbatim>\<open>return self._lastCallTime + self._timeBetweenCalls < time.time()\<close>\<close>

definition shouldCall :: "('w, 'v) Event \<Rightarrow> 'w sys \<Rightarrow> bool \<times> 'w sys" where
  "shouldCall e s =
     (let total = float_add s (lastCallTime e) (timeBetweenCalls e);
          (now, s1) = time_time s
      in (total < now, s1))"

text \<open>
  The second branch of \<^verbatim>\<open>Event._call\<close>: stamp the time, call the callable, then the
  callback on its result.
\<close>

definition invoke ::
  "('w, 'v) Event \<Rightarrow> 'w sys \<Rightarrow> (exn + 'v retval) \<times> ('w, 'v) Event \<times> 'w sys" where
  "invoke e s =
     (let (now, s1) = time_time s;
          e1 = e\<lparr>lastCallTime := now\<rparr>;
          (r, s2) = run_user (fn_body (callable e1) (lastCallTime e1)) s1
      in case r of
           Inl ex \<Rightarrow> (Inl ex, e1, s2)
         | Inr v \<Rightarrow>
             (case callback e1 of
                None \<Rightarrow> (Inr (RetVal v), e1, s2)
              | Some cb \<Rightarrow>
                  (case run_user (cb v (lastCallTime e1)) s2 of
                     (Inl ex, s3) \<Rightarrow> (Inl ex, e1, s3)
                   | (Inr v', s3) \<Rightarrow> (Inr (RetVal v'), e1, s3))))"

text \<open>
  \<^verbatim>\<open>EventThread._wrapped_run\<close> for a worker of task \<open>e\<close>. The real run is the target
  \<^verbatim>\<open>e._call(True)\<close>, which takes the second branch of \<^verbatim>\<open>_call\<close>. An instance of
  \<^verbatim>\<open>Exception\<close> is stored; anything else leaves the thread object as it was.
\<close>

definition wrapped_run ::
  "EventThread \<Rightarrow> ('w, 'v) Event \<Rightarrow> 'w sys \<Rightarrow> EventThread \<times> ('w, 'v) Event \<times> 'w sys" where
  "wrapped_run t e s =
     (case invoke e s of
        (Inl ex, e1, s1) \<Rightarrow> ((if is_Exception ex then t\<lparr>exception := Some ex\<rparr> else t), e1, s1)
      | (Inr _, e1, s1) \<Rightarrow> (t, e1, s1))"

text \<open>A worker thread runs to its end: the wrapped run, after which it is not alive.\<close>

definition finish ::
  "EventThread \<Rightarrow> ('w, 'v) Event \<Rightarrow> 'w sys \<Rightarrow> EventThread \<times> ('w, 'v) Event \<times> 'w sys" where
  "finish t e s = (let (t1, e1, s1) = wrapped_run t e s in (t1\<lparr>alive := False\<rparr>, e1, s1))"

text \<open>A scheduling point: the worker \<open>t\<close>, if it is still alive, may get to run now.\<close>

definition may_run ::
  "EventThread \<Rightarrow> ('w, 'v) Event \<Rightarrow> 'w sys \<Rightarrow> EventThread \<times> ('w, 'v) Event \<times> 'w sys" where
  "may_run t e s =
     (let s1 = s\<lparr>steps := Suc (steps s)\<rparr>
      in if alive t \<and> sched s (ident t) (steps s) then finish t e s1 else (t, e, s1))"

text \<open>
  \<^verbatim>\<open>Event._call(iAmAThread)\<close>. The first branch formats its log line with
  \<^verbatim>\<open>self._callable.__name__\<close> (an \<^verbatim>\<open>AttributeError\<close> when the callable has none), then
  creates, starts and records an \<^verbatim>\<open>EventThread\<close> whose target is \<^verbatim>\<open>self._call(True)\<close>.
\<close>

definition call ::
  "('w, 'v) Event \<Rightarrow> bool \<Rightarrow> 'w sys \<Rightarrow> (exn + 'v retval) \<times> ('w, 'v) Event \<times> 'w sys" where
  "call e iAmAThread s =
     (if spawnThread e \<and> \<not> iAmAThread then
        (case fn_name (callable e) of
           None \<Rightarrow> (Inl AttributeError, e, s)
         | Some _ \<Rightarrow>
             (let (t, s1) = EventThread_init s;
                  (t1, e1, s2) = may_run (t\<lparr>alive := True\<rparr>) e s1
              in (Inr (RetThread t1), e1\<lparr>threads := threads e1 @ [t1]\<rparr>, s2)))
      else invoke e s)"

text \<open>
  \<^verbatim>\<open>threading.Thread.join(self)\<close> on a worker: returns at once when the thread has
  finished, otherwise waits until its run is over.
\<close>

definition Thread_join ::
  "EventThread \<Rightarrow> ('w, 'v) Event \<Rightarrow> 'w sys \<Rightarrow> EventThread \<times> ('w, 'v) Event \<times> 'w sys" where
  "Thread_join t e s = (if alive t then finish t e s else (t, e, s))"

text \<open>
  \<^verbatim>\<open>EventThread.join\<close>, called by the thread \<open>cur\<close>. The first component of the result
  is the exception raised, if any.
\<close>

definition EventThread_join ::
  "nat \<Rightarrow> EventThread \<Rightarrow> ('w, 'v) Event \<Rightarrow> 'w sys
     \<Rightarrow> exn option \<times> EventThread \<times> ('w, 'v) Event \<times> 'w sys" where
  "EventThread_join cur t e s =
     (let (t1, e1, s1) = (if ident t \<noteq> cur then Thread_join t e s else (t, e, s));
          t2 = t1\<lparr>isJoined := True\<rparr>
      in (exception t2, t2, e1, s1))"

text \<open>
  The loop of \<^verbatim>\<open>_joinDeadThreads\<close>: \<open>ds\<close> are the thread objects already visited, the
  second list those still to visit. Each \<^verbatim>\<open>is_alive()\<close> test is a scheduling point.
  A raise leaves the loop with the objects as they are at that moment.
\<close>

fun joinDead_loop ::
  "nat \<Rightarrow> EventThread list \<Rightarrow> EventThread list \<Rightarrow> ('w, 'v) Event \<Rightarrow> 'w sys
     \<Rightarrow> exn option \<times> EventThread list \<times> ('w, 'v) Event \<times> 'w sys" where
  "joinDead_loop cur ds [] e s = (None, ds, e, s)"
| "joinDead_loop cur ds (t # ts) e s =
     (case may_run t e s of
        (t0, e0, s0) \<Rightarrow>
          (if \<not> alive t0 then
             (case EventThread_join cur t0 e0 s0 of
                (Some ex, t1, e1, s1) \<Rightarrow> (Some ex, ds @ t1 # ts, e1, s1)
              | (None, t1, e1, s1) \<Rightarrow> joinDead_loop cur (ds @ [t1]) ts e1 s1)
           else joinDead_loop cur (ds @ [t0]) ts e0 s0))"

definition joinDeadThreads ::
  "nat \<Rightarrow> ('w, 'v) Event \<Rightarrow> 'w sys \<Rightarrow> exn option \<times> ('w, 'v) Event \<times> 'w sys" where
  "joinDeadThreads cur e s =
     (case joinDead_loop cur [] (threads e) e s of
        (Some ex, ts, e1, s1) \<Rightarrow> (Some ex, e1\<lparr>threads := ts\<rparr>, s1)
      | (None, ts, e1, s1) \<Rightarrow> (None, e1\<lparr>threads := filter (\<lambda>i. \<not> isJoined i) ts\<rparr>, s1))"

definition callIfShouldCall ::
  "nat \<Rightarrow> ('w, 'v) Event \<Rightarrow> 'w sys \<Rightarrow> exn option \<times> ('w, 'v) Event \<times> 'w sys" where
  "callIfShouldCall cur e s =
     (let (due, s1) = shouldCall e s
      in if due then
           (case call e False s1 of
              (Inl ex, e1, s2) \<Rightarrow> (Some ex, e1, s2)
            | (Inr retVal, e1, s2) \<Rightarrow> joinDeadThreads cur e1 s2)
         else (None, e, s1))"

text \<open>The loop of \<^verbatim>\<open>Event.join\<close>: every tracked thread is joined, whatever its state.\<close>

fun join_loop ::
  "nat \<Rightarrow> EventThread list \<Rightarrow> EventThread list \<Rightarrow> ('w, 'v) Event \<Rightarrow> 'w sys
     \<Rightarrow> exn option \<times> EventThread list \<times> ('w, 'v) Event \<times> 'w sys" where
  "join_loop cur ds [] e s = (None, ds, e, s)"
| "join_loop cur ds (t # ts) e s =
     (case EventThread_join cur t e s of
        (Some ex, t1, e1, s1) \<Rightarrow> (Some ex, ds @ t1 # ts, e1, s1)
      | (None, t1, e1, s1) \<Rightarrow> join_loop cur (ds @ [t1]) ts e1 s1)"

definition Event_join ::
  "nat \<Rightarrow> ('w, 'v) Event \<Rightarrow> 'w sys \<Rightarrow> exn option \<times> ('w, 'v) Event \<times> 'w sys" where
  "Event_join cur e s =
     (case join_loop cur [] (threads e) e s of
        (Some ex, ts, e1, s1) \<Rightarrow> (Some ex, e1\<lparr>threads := ts\<rparr>, s1)
      | (None, ts, e1, s1) \<Rightarrow> (None, e1\<lparr>threads := []\<rparr>, s1))"

subsection \<open>EventManager\<close>

record ('w, 'v) EventManager =
  thread :: "Driver option"
  shouldContinue :: bool
  running :: bool
  eventList :: "('w, 'v) Event list"
  eventsSpawnThreads :: bool
  stopInProgress :: bool
  childException :: "exn option"

definition EventManager_init :: "bool \<Rightarrow> ('w, 'v) EventManager" where
  "EventManager_init spawn =
     \<lparr>thread = None, shouldContinue = True, running = False, eventList = [],
      eventsSpawnThreads = spawn, stopInProgress = False, childException = None\<rparr>"

text \<open>
  \<^verbatim>\<open>for i in self._eventList: i.callIfShouldCall()\<close>: \<open>ds\<close> are the tasks already
  polled in this pass, the second list those still to poll.
\<close>

fun poll_events ::
  "nat \<Rightarrow> ('w, 'v) Event list \<Rightarrow> ('w, 'v) Event list \<Rightarrow> 'w sys
     \<Rightarrow> exn option \<times> ('w, 'v) Event list \<times> 'w sys" where
  "poll_events cur ds [] s = (None, ds, s)"
| "poll_events cur ds (e # es) s =
     (case callIfShouldCall cur e s of
        (Some ex, e1, s1) \<Rightarrow> (Some ex, ds @ e1 # es, s1)
      | (None, e1, s1) \<Rightarrow> poll_events cur (ds @ [e1]) es s1)"

text \<open>
  The \<^verbatim>\<open>while self._shouldContinue\<close> loop of \<^verbatim>\<open>_execute\<close>. \<open>None\<close> is a loop that never
  ends. An \<^verbatim>\<open>Exception\<close> is stored and breaks the loop; any other exception is not
  caught by \<^verbatim>\<open>except Exception\<close> and leaves \<^verbatim>\<open>_execute\<close> (first component \<open>Some\<close>).
\<close>

partial_function (option) execute_loop ::
  "nat \<Rightarrow> ('w, 'v) EventManager \<Rightarrow> 'w sys
     \<Rightarrow> (exn option \<times> ('w, 'v) EventManager \<times> 'w sys) option" where
  "execute_loop cur m s =
     (if shouldContinue m then
        (case poll_events cur [] (eventList m) s of
           (Some ex, es, s1) \<Rightarrow>
             (if is_Exception ex
              then Some (None, m\<lparr>eventList := es, childException := Some ex\<rparr>, s1)
              else Some (Some ex, m\<lparr>eventList := es\<rparr>, s1))
         | (None, es, s1) \<Rightarrow> execute_loop cur (m\<lparr>eventList := es\<rparr>) s1)
      else Some (None, m, s))"

definition execute ::
  "nat \<Rightarrow> ('w, 'v) EventManager \<Rightarrow> 'w sys
     \<Rightarrow> (exn option \<times> ('w, 'v) EventManager \<times> 'w sys) option" where
  "execute cur m s =
     (case execute_loop cur (m\<lparr>running := True\<rparr>) s of
        None \<Rightarrow> None
      | Some (Some ex, m1, s1) \<Rightarrow> Some (Some ex, m1, s1)
      | Some (None, m1, s1) \<Rightarrow> Some (None, m1\<lparr>running := False\<rparr>, s1))"

text \<open>
  The rest of \<^verbatim>\<open>_execute\<close> for a driver that stands inside the loop with the first
  \<open>i\<close> tasks of its pass polled: the pass is finished, then the loop goes on as above.
\<close>

definition execute_resume ::
  "nat \<Rightarrow> nat \<Rightarrow> ('w, 'v) EventManager \<Rightarrow> 'w sys
     \<Rightarrow> (exn option \<times> ('w, 'v) EventManager \<times> 'w sys) option" where
  "execute_resume cur i m s =
     (case poll_events cur (take i (eventList m)) (drop i (eventList m)) s of
        (Some ex, es, s1) \<Rightarrow>
          (if is_Exception ex
           then Some (None, m\<lparr>eventList := es, childException := Some ex, running := False\<rparr>, s1)
           else Some (Some ex, m\<lparr>eventList := es\<rparr>, s1))
      | (None, es, s1) \<Rightarrow>
          (case execute_loop cur (m\<lparr>eventList := es\<rparr>) s1 of
             None \<Rightarrow> None
           | Some (Some ex, m1, s2) \<Rightarrow> Some (Some ex, m1, s2)
           | Some (None, m1, s2) \<Rightarrow> Some (None, m1\<lparr>running := False\<rparr>, s2)))"

definition addEvent ::
  "('w, 'v) pycallable \<Rightarrow> real \<Rightarrow> ('v \<Rightarrow> real \<Rightarrow> 'w sys \<Rightarrow> (exn + 'v) \<times> 'w sys) option
     \<Rightarrow> ('w, 'v) EventManager \<Rightarrow> ('w, 'v) EventManager" where
  "addEvent thingToCall tbc cb m =
     m\<lparr>eventList := eventList m @ [Event_init thingToCall tbc (eventsSpawnThreads m) cb]\<rparr>"

text \<open>
  \<^verbatim>\<open>start()\<close>, called by a thread whose daemon flag is \<open>creator_daemon\<close>. Starting the
  driver is a scheduling point: when \<open>start\<close> returns, the driver may already have
  set the running flag and entered its loop.
\<close>

definition start ::
  "bool \<Rightarrow> ('w, 'v) EventManager \<Rightarrow> 'w sys \<Rightarrow> ('w, 'v) EventManager \<times> 'w sys" where
  "start creator_daemon m s =
     (let m1 = m\<lparr>shouldContinue := True\<rparr>;
          (t, s1) = Thread_init creator_daemon s;
          entered = sched s1 (ident t) (steps s1);
          s2 = s1\<lparr>steps := Suc (steps s1)\<rparr>;
          t1 = t\<lparr>alive := True, progress := (if entered then Some 0 else None)\<rparr>
      in (m1\<lparr>thread := Some t1, running := (entered \<or> running m1)\<rparr>, s2))"

text \<open>
  \<^verbatim>\<open>self._thread.join()\<close> inside \<^verbatim>\<open>stop()\<close>. The driver is a plain \<^verbatim>\<open>threading.Thread\<close>:
  joining it from itself raises \<^verbatim>\<open>RuntimeError\<close>; otherwise the caller waits until the
  driver has done the rest of \<^verbatim>\<open>_execute\<close>, and an exception that escaped \<^verbatim>\<open>_execute\<close>
  ended that thread only.
\<close>

definition driver_join ::
  "nat \<Rightarrow> Driver \<Rightarrow> ('w, 'v) EventManager \<Rightarrow> 'w sys
     \<Rightarrow> (exn option \<times> ('w, 'v) EventManager \<times> 'w sys) option" where
  "driver_join cur t m s =
     (if ident t = cur then Some (Some RuntimeError, m, s)
      else if alive t then
        (case (case progress t of
                 None \<Rightarrow> execute (ident t) m s
               | Some i \<Rightarrow> execute_resume (ident t) i m s) of
           None \<Rightarrow> None
         | Some (_, m1, s1) \<Rightarrow> Some (None, m1\<lparr>thread := Some (t\<lparr>alive := False\<rparr>)\<rparr>, s1))
      else Some (None, m, s))"

text \<open>\<^verbatim>\<open>for i in self._eventList: i.join()\<close>\<close>

fun join_events ::
  "nat \<Rightarrow> ('w, 'v) Event list \<Rightarrow> ('w, 'v) Event list \<Rightarrow> 'w sys
     \<Rightarrow> exn option \<times> ('w, 'v) Event list \<times> 'w sys" where
  "join_events cur ds [] s = (None, ds, s)"
| "join_events cur ds (e # es) s =
     (case Event_join cur e s of
        (Some ex, e1, s1) \<Rightarrow> (Some ex, ds @ e1 # es, s1)
      | (None, e1, s1) \<Rightarrow> join_events cur (ds @ [e1]) es s1)"

definition stop ::
  "nat \<Rightarrow> ('w, 'v) EventManager \<Rightarrow> 'w sys
     \<Rightarrow> (exn option \<times> ('w, 'v) EventManager \<times> 'w sys) option" where
  "stop cur m s =
     (if \<not> stopInProgress m then
        (let m1 = m\<lparr>stopInProgress := True\<rparr>;
             m2 = m1\<lparr>shouldContinue := False\<rparr>
         in case (case thread m2 of
                    None \<Rightarrow> Some (None, m2, s)
                  | Some t \<Rightarrow> driver_join cur t m2 s) of
              None \<Rightarrow> None
            | Some (Some ex, m3, s1) \<Rightarrow> Some (Some ex, m3, s1)
            | Some (None, m3, s1) \<Rightarrow>
                (case join_events cur [] (eventList m3) s1 of
                   (Some ex, es, s2) \<Rightarrow> Some (Some ex, m3\<lparr>eventList := es\<rparr>, s2)
                 | (None, es, s2) \<Rightarrow>
                     Some (None, m3\<lparr>eventList := es, stopInProgress := False\<rparr>, s2)))
      else Some (None, m, s))"


subsection \<open>Auxiliary notions for the statements\<close>

text \<open>
  \<open>clean_passes cur n m s\<close> is the state in which the \<open>while\<close> loop of \<^verbatim>\<open>_execute\<close>
  starts its pass number \<open>n + 1\<close>, when the continue-flag was set and nothing was raised
  in each of the first \<open>n\<close> passes.
\<close>

fun clean_passes ::
  "nat \<Rightarrow> nat \<Rightarrow> ('w, 'v) EventManager \<Rightarrow> 'w sys \<Rightarrow> (('w, 'v) EventManager \<times> 'w sys) option" where
  "clean_passes cur 0 m s = Some (m, s)"
| "clean_passes cur (Suc n) m s =
     (if shouldContinue m then
        (case poll_events cur [] (eventList m) s of
           (Some ex, es, s1) \<Rightarrow> None
         | (None, es, s1) \<Rightarrow> clean_passes cur n (m\<lparr>eventList := es\<rparr>) s1)
      else None)"

text \<open>
  \<open>later m m'\<close>: the manager \<open>m'\<close> is what \<open>m\<close> has become after any number of calls of
  its methods, each made by any thread in any interpreter state.
\<close>

inductive later :: "('w, 'v) EventManager \<Rightarrow> ('w, 'v) EventManager \<Rightarrow> bool" for m where
  later_now: "later m m"
| later_addEvent: "later m m1 \<Longrightarrow> later m (addEvent f tbc cb m1)"
| later_start: "later m m1 \<Longrightarrow> start d m1 s = (m2, s') \<Longrightarrow> later m m2"
| later_stop: "later m m1 \<Longrightarrow> stop cur m1 s = Some (r, m2, s') \<Longrightarrow> later m m2"
| later_execute: "later m m1 \<Longrightarrow> execute cur m1 s = Some (r, m2, s') \<Longrightarrow> later m m2"

subsection \<open>Sample objects\<close>

text \<open>
  Concrete callables, threads, tasks and managers on which the statements below are
  evaluated. The user world is a counter of invocations; values are integers. The
  sample times are whole numbers of moderate size, on which the float sum is the
  exact sum; in \<open>sys_at\<close> no started thread gets to run before it is joined, in
  \<open>sys_eager\<close> every started thread runs at the first opportunity.
\<close>

definition counting :: "(nat, int) pycallable" where
  "counting =
     \<lparr>fn_name = Some ''counting'',
      fn_body = (\<lambda>stamp s. (Inr (int (world s)), s\<lparr>world := Suc (world s)\<rparr>))\<rparr>"


definition exiting :: "(nat, int) pycallable" where
  "exiting =
     \<lparr>fn_name = Some ''exiting'',
      fn_body = (\<lambda>stamp s. (Inl (BaseException ''SystemExit''), s\<lparr>world := Suc (world s)\<rparr>))\<rparr>"

definition flaky :: "(nat, int) pycallable" where
  "flaky =
     \<lparr>fn_name = Some ''flaky'',
      fn_body = (\<lambda>stamp s.
        ((if world s = 0 then Inr 0 else Inl (Exception ''BoomError'')),
         s\<lparr>world := Suc (world s)\<rparr>))\<rparr>"

text \<open>
  A callable that reads the clock once and returns the last-invocation time it finds on
  its task, rounded down.
\<close>

definition stamp_seen :: "(nat, int) pycallable" where
  "stamp_seen =
     \<lparr>fn_name = Some ''stamp_seen'',
      fn_body = (\<lambda>stamp s. (Inr \<lfloor>stamp\<rfloor>, s\<lparr>world := Suc (world s), ticks := Suc (ticks s)\<rparr>))\<rparr>"

text \<open>A callable object without \<^verbatim>\<open>__name__\<close>, such as a \<^verbatim>\<open>functools.partial\<close>.\<close>

definition nameless :: "(nat, int) pycallable" where
  "nameless = counting\<lparr>fn_name := None\<rparr>"

definition plus_ten :: "int \<Rightarrow> real \<Rightarrow> nat sys \<Rightarrow> (exn + int) \<times> nat sys" where
  "plus_ten v stamp s = (Inr (v + 10), s)"

definition sys_at :: "real \<Rightarrow> nat sys" where
  "sys_at now =
     \<lparr>world = 0, clock = (\<lambda>n. now + real n), ticks = 0, fadd = (+),
      sched = (\<lambda>i k. False), steps = 0, next_ident = 100\<rparr>"


definition finished_ok :: "nat \<Rightarrow> EventThread" where
  "finished_ok i = \<lparr>ident = i, daemon = True, alive = False, exception = None, isJoined = False\<rparr>"

definition finished_boom :: "nat \<Rightarrow> EventThread" where
  "finished_boom i =
     \<lparr>ident = i, daemon = True, alive = False, exception = Some (Exception ''BoomError''),
      isJoined = False\<rparr>"


definition tracking :: "EventThread list \<Rightarrow> (nat, int) Event" where
  "tracking ts = (Event_init counting 1 True None)\<lparr>lastCallTime := 1000, threads := ts\<rparr>"

definition managing :: "(nat, int) Event list \<Rightarrow> (nat, int) EventManager" where
  "managing es = (EventManager_init True)\<lparr>eventList := es\<rparr>"

definition sync_event :: "(nat, int) Event" where
  "sync_event = Event_init stamp_seen 5 False (Some plus_ten)"

definition stopping :: "(nat, int) EventManager" where
  "stopping =
     (managing [tracking [finished_boom 7]])
       \<lparr>thread := Some \<lparr>ident = 1, daemon = False, alive = True, progress = Some 0\<rparr>,
        stopInProgress := True\<rparr>"




definition two_tasks :: "(nat, int) EventManager" where
  "two_tasks = addEvent counting 0 None (addEvent flaky 0 None (EventManager_init False))"

definition exit_task :: "(nat, int) EventManager" where
  "exit_task = addEvent exiting 0 None (EventManager_init False)"

section \<open>Properties\<close>

subsection \<open>What running a worker changes\<close>

lemma invoke_event:
  "fst (snd (invoke e s)) = e\<lparr>lastCallTime := clock s (ticks s)\<rparr>"
  by (simp add: invoke_def time_time_def run_user_def Let_def
      split: prod.splits sum.splits option.splits)

lemma wrapped_run_thread:
  "wrapped_run t e s = (t', e', s') \<Longrightarrow>
     ident t' = ident t \<and> daemon t' = daemon t \<and> alive t' = alive t \<and>
     isJoined t' = isJoined t \<and> (exception t \<noteq> None \<longrightarrow> exception t' \<noteq> None) \<and>
     e' = e\<lparr>lastCallTime := clock s (ticks s)\<rparr>"
  using invoke_event [of e s]
  by (auto simp: wrapped_run_def split: prod.splits sum.splits if_splits)

lemma finish_thread:
  "finish t e s = (t', e', s') \<Longrightarrow>
     ident t' = ident t \<and> daemon t' = daemon t \<and> \<not> alive t' \<and>
     isJoined t' = isJoined t \<and> (exception t \<noteq> None \<longrightarrow> exception t' \<noteq> None) \<and>
     e' = e\<lparr>lastCallTime := clock s (ticks s)\<rparr>"
  by (auto simp: finish_def Let_def split: prod.splits dest: wrapped_run_thread)

lemma may_run_thread:
  "may_run t e s = (t', e', s') \<Longrightarrow>
     ident t' = ident t \<and> daemon t' = daemon t \<and>
     isJoined t' = isJoined t \<and> (exception t \<noteq> None \<longrightarrow> exception t' \<noteq> None) \<and>
     threads e' = threads e"
  by (auto simp: may_run_def Let_def split: if_splits dest: finish_thread)

subsection \<open>When a task is due\<close>

text \<open>
  C5 (as amended). A task is judged due exactly when the sum of its last-invocation
  time and its interval, as Python computes that sum, is strictly less than the clock
  reading the check takes. Where the computed sum is the exact sum, this says that the
  time elapsed since the last invocation is strictly greater than the interval:
  reaching the interval is not enough.
\<close>

theorem shouldCall_iff_sum_below_clock:
  "(fst (shouldCall e s) \<longleftrightarrow>
      float_add s (lastCallTime e) (timeBetweenCalls e) < clock s (ticks s)) \<and>
   (float_add s (lastCallTime e) (timeBetweenCalls e) = lastCallTime e + timeBetweenCalls e \<longrightarrow>
      (fst (shouldCall e s) \<longleftrightarrow> timeBetweenCalls e < clock s (ticks s) - lastCallTime e))"
  by (auto simp: shouldCall_def time_time_def Let_def)

theorem shouldCall_iff_sum_below_clock_witness:
  "float_add (sys_at 1002) (lastCallTime (tracking [])) (timeBetweenCalls (tracking []))
     = lastCallTime (tracking []) + timeBetweenCalls (tracking []) \<and>
   timeBetweenCalls (tracking []) < clock (sys_at 1002) (ticks (sys_at 1002)) - lastCallTime (tracking []) \<and>
   fst (shouldCall (tracking []) (sys_at 1002))"
proof -
  have exact: "float_add (sys_at 1002) (lastCallTime (tracking [])) (timeBetweenCalls (tracking []))
     = lastCallTime (tracking []) + timeBetweenCalls (tracking [])"
    by (simp add: float_add_def sys_at_def tracking_def Event_init_def)
  have elapsed: "timeBetweenCalls (tracking [])
      < clock (sys_at 1002) (ticks (sys_at 1002)) - lastCallTime (tracking [])"
    by (simp add: sys_at_def tracking_def Event_init_def)
  from shouldCall_iff_sum_below_clock [of "tracking []" "sys_at 1002"] exact elapsed
  show ?thesis by blast
qed

text \<open>
  C5 as stated fails: last invocation at 1000, interval 1, poll at exactly 1001.
\<close>

theorem shouldCall_false_at_exact_interval:
  "lastCallTime (tracking []) + timeBetweenCalls (tracking []) \<le> clock (sys_at 1001) (ticks (sys_at 1001))
   \<and> \<not> fst (shouldCall (tracking []) (sys_at 1001))"
  by (simp add: shouldCall_def float_add_def time_time_def tracking_def Event_init_def
      sys_at_def Let_def)






subsection \<open>Synchronous dispatch\<close>

text \<open>
  C7. For a task configured for synchronous dispatch, \<open>call\<close> first stamps the
  last-invocation time with a clock reading and then, with nothing in between, invokes
  the callable: the callable finds the new stamp on its task and starts in the state
  just after that clock reading. The stamp is there whatever the callable does, also
  when it raises. When the callable returns \<open>v\<close>, the result handed to the direct
  caller is \<open>v\<close> itself if no callback is configured, and otherwise whatever the
  callback, called on \<open>v\<close> in the state the callable left, makes of it.
\<close>

theorem call_synchronous:
  assumes "\<not> spawnThread e"
  shows "fst (snd (call e iAmAThread s)) = e\<lparr>lastCallTime := clock s (ticks s)\<rparr> \<and>
    (\<forall>ex s'. fn_body (callable e) (clock s (ticks s)) (s\<lparr>ticks := Suc (ticks s)\<rparr>) = (Inl ex, s') \<longrightarrow>
       call e iAmAThread s =
         (Inl ex, e\<lparr>lastCallTime := clock s (ticks s)\<rparr>, s\<lparr>world := world s', ticks := ticks s'\<rparr>)) \<and>
    (\<forall>v s'. fn_body (callable e) (clock s (ticks s)) (s\<lparr>ticks := Suc (ticks s)\<rparr>) = (Inr v, s') \<longrightarrow>
       (callback e = None \<longrightarrow>
          call e iAmAThread s =
            (Inr (RetVal v), e\<lparr>lastCallTime := clock s (ticks s)\<rparr>,
             s\<lparr>world := world s', ticks := ticks s'\<rparr>)) \<and>
       (\<forall>cb. callback e = Some cb \<longrightarrow>
          call e iAmAThread s =
            (case cb v (clock s (ticks s)) (s\<lparr>world := world s', ticks := ticks s'\<rparr>) of
               (Inl ex, s3) \<Rightarrow>
                 (Inl ex, e\<lparr>lastCallTime := clock s (ticks s)\<rparr>,
                  s\<lparr>world := world s3, ticks := ticks s3\<rparr>)
             | (Inr v', s3) \<Rightarrow>
                 (Inr (RetVal v'), e\<lparr>lastCallTime := clock s (ticks s)\<rparr>,
                  s\<lparr>world := world s3, ticks := ticks s3\<rparr>))))"
  using assms
  by (auto simp: call_def invoke_def time_time_def run_user_def Let_def
      split: prod.splits sum.splits option.splits)

theorem call_synchronous_witness:
  "\<not> spawnThread sync_event \<and>
   lastCallTime sync_event = 0 \<and>
   fst (call sync_event False (sys_at 50)) = Inr (RetVal 60) \<and>
   lastCallTime (fst (snd (call sync_event False (sys_at 50)))) = 50 \<and>
   world (snd (snd (call sync_event False (sys_at 50)))) = 1 \<and>
   ticks (snd (snd (call sync_event False (sys_at 50)))) = 2"
proof -
  have sync: "\<not> spawnThread sync_event" and fresh: "lastCallTime sync_event = 0"
    by (simp_all add: sync_event_def Event_init_def)
  have ran: "fn_body (callable sync_event) (clock (sys_at 50) (ticks (sys_at 50)))
      ((sys_at 50)\<lparr>ticks := Suc (ticks (sys_at 50))\<rparr>)
      = (Inr 50, (sys_at 50)\<lparr>world := 1, ticks := 2\<rparr>)"
    by (simp add: sync_event_def Event_init_def sys_at_def stamp_seen_def)
  have cb: "callback sync_event = Some plus_ten"
    by (simp add: sync_event_def Event_init_def)
  from call_synchronous [OF sync, of False "sys_at 50"] ran cb
  have "call sync_event False (sys_at 50) =
      (case plus_ten 50 (clock (sys_at 50) (ticks (sys_at 50)))
              ((sys_at 50)\<lparr>world := 1, ticks := 2\<rparr>) of
         (Inl ex, s3) \<Rightarrow>
           (Inl ex, sync_event\<lparr>lastCallTime := clock (sys_at 50) (ticks (sys_at 50))\<rparr>,
            (sys_at 50)\<lparr>world := world s3, ticks := ticks s3\<rparr>)
       | (Inr v', s3) \<Rightarrow>
           (Inr (RetVal v'), sync_event\<lparr>lastCallTime := clock (sys_at 50) (ticks (sys_at 50))\<rparr>,
            (sys_at 50)\<lparr>world := world s3, ticks := ticks s3\<rparr>))"
    by simp
  then show ?thesis
    by (simp add: sync fresh plus_ten_def sys_at_def)
qed

subsection \<open>Daemon threads\<close>

text \<open>
  C9 (as amended). Every worker thread that asynchronous dispatch hands back is a
  daemon thread, and it is the last of the tracked workers. The driver-loop thread
  made by \<open>start\<close> is a plain thread whose daemon flag is not set by the scheduler: it
  has the daemon flag of the thread that called \<open>start\<close>.
\<close>

theorem worker_daemon_driver_inherits:
  "(call e False s = (Inr (RetThread t), e', s') \<longrightarrow>
      daemon t \<and> threads e' = threads e @ [t]) \<and>
   map_option daemon (thread (fst (start d m s))) = Some d"
proof -
  have "daemon t \<and> threads e' = threads e @ [t]"
    if c: "call e False s = (Inr (RetThread t), e', s')"
  proof (cases "spawnThread e")
    case False
    with c show ?thesis
      by (auto simp: call_def invoke_def Let_def split: prod.splits sum.splits option.splits)
  next
    case True
    obtain t1 e1 s2 where
      mr: "may_run (fst (EventThread_init s)\<lparr>alive := True\<rparr>) e (snd (EventThread_init s)) = (t1, e1, s2)"
      by (metis prod_cases3)
    from may_run_thread [OF mr] have "daemon t1" and "threads e1 = threads e"
      by (simp_all add: EventThread_init_def)
    with c True mr show ?thesis
      by (auto simp: call_def Let_def split: option.splits prod.splits)
  qed
  moreover have "map_option daemon (thread (fst (start d m s))) = Some d"
    by (simp add: start_def Thread_init_def Let_def)
  ultimately show ?thesis by blast
qed

theorem worker_daemon_driver_inherits_witness:
  "\<exists>t e' s'. call (tracking []) False (sys_at 0) = (Inr (RetThread t), e', s') \<and>
      daemon t \<and> threads e' = [t]"
proof -
  obtain r e' s' where c: "call (tracking []) False (sys_at 0) = (r, e', s')"
    by (metis prod_cases3)
  then obtain t where r: "r = Inr (RetThread t)"
    by (auto simp: call_def tracking_def Event_init_def counting_def EventThread_init_def
        may_run_def sys_at_def Let_def)
  have none: "threads (tracking []) = []"
    by (simp add: tracking_def)
  from worker_daemon_driver_inherits [of "tracking []" "sys_at 0" t e' s'] c r none
  show ?thesis by auto
qed

text \<open>
  C9 as stated fails for the driver: started from a thread that is not a daemon (the
  main thread), the driver-loop thread is not a daemon thread.
\<close>

theorem driver_thread_not_daemon:
  "map_option daemon (thread (fst (start False (managing []) (sys_at 0)))) = Some False"
  by (simp add: start_def Thread_init_def Let_def)

subsection \<open>Reaping and joining workers\<close>

text \<open>
  C3, the code at the failing input. The task tracks three finished workers, the
  second with a captured \<^verbatim>\<open>BoomError\<close>. The reap pass joins workers 7 and 8, raises
  the failure of 8 and ends there: worker 9 is not visited, and the workers 7 and 8,
  both joined, are still tracked.
\<close>

theorem joinDeadThreads_failure_keeps_joined_workers:
  "fst (joinDeadThreads 0 (tracking [finished_ok 7, finished_boom 8, finished_ok 9]) (sys_at 0))
     = Some (Exception ''BoomError'') \<and>
   map ident (threads (fst (snd
     (joinDeadThreads 0 (tracking [finished_ok 7, finished_boom 8, finished_ok 9]) (sys_at 0)))))
     = [7, 8, 9] \<and>
   map isJoined (threads (fst (snd
     (joinDeadThreads 0 (tracking [finished_ok 7, finished_boom 8, finished_ok 9]) (sys_at 0)))))
     = [True, True, False]"
  by (simp add: joinDeadThreads_def may_run_def EventThread_join_def Thread_join_def tracking_def
      Event_init_def finished_ok_def finished_boom_def Let_def)

text \<open>
  C4, the code at the failing input. The task tracks the same three finished workers.
  \<open>Event_join\<close> raises the failure of worker 8 and the tracked collection is not
  cleared: it still holds all three workers, the last one not joined.
\<close>

theorem Event_join_failure_keeps_workers:
  "fst (Event_join 0 (tracking [finished_ok 7, finished_boom 8, finished_ok 9]) (sys_at 0))
     = Some (Exception ''BoomError'') \<and>
   map ident (threads (fst (snd
     (Event_join 0 (tracking [finished_ok 7, finished_boom 8, finished_ok 9]) (sys_at 0)))))
     = [7, 8, 9] \<and>
   map isJoined (threads (fst (snd
     (Event_join 0 (tracking [finished_ok 7, finished_boom 8, finished_ok 9]) (sys_at 0)))))
     = [True, True, False]"
  by (simp add: Event_join_def EventThread_join_def Thread_join_def tracking_def
      Event_init_def finished_ok_def finished_boom_def Let_def)

subsection \<open>Stopping\<close>

text \<open>
  C8. A \<open>stop\<close> that begins while the stop-in-progress flag is set returns at once,
  raises nothing and leaves the manager and the interpreter state exactly as they
  were: nothing is joined, no flag and no tracked collection changes.
\<close>

theorem stop_in_progress_noop:
  assumes "stopInProgress m"
  shows "stop cur m s = Some (None, m, s)"
  using assms by (simp add: stop_def)

theorem stop_in_progress_noop_witness:
  "stopInProgress stopping \<and> stop 0 stopping (sys_at 0) = Some (None, stopping, sys_at 0)"
proof -
  have flag: "stopInProgress stopping"
    by (simp add: stopping_def)
  from stop_in_progress_noop [OF flag, of 0 "sys_at 0"] flag
  show ?thesis by simp
qed


subsection \<open>Joining: what is raised and what stays tracked\<close>

lemma EventThread_join_thread:
  "EventThread_join cur t e s = (r, t1, e1, s1) \<Longrightarrow>
     r = exception t1 \<and> isJoined t1 \<and> ident t1 = ident t \<and>
     (exception t \<noteq> None \<longrightarrow> exception t1 \<noteq> None) \<and> threads e1 = threads e"
  by (auto simp: EventThread_join_def Thread_join_def Let_def
      split: prod.splits if_splits dest: finish_thread)











subsection \<open>The driver loop\<close>

lemma execute_loop_stopped:
  "\<not> shouldContinue m \<Longrightarrow> execute_loop cur m s = Some (None, m, s)"
  by (subst execute_loop.simps) simp

lemma execute_loop_Exception:
  "shouldContinue m \<Longrightarrow> poll_events cur [] (eventList m) s = (Some ex, es, s1) \<Longrightarrow>
     is_Exception ex \<Longrightarrow>
     execute_loop cur m s = Some (None, m\<lparr>eventList := es, childException := Some ex\<rparr>, s1)"
  by (subst execute_loop.simps) simp

lemma execute_loop_escapes:
  "shouldContinue m \<Longrightarrow> poll_events cur [] (eventList m) s = (Some ex, es, s1) \<Longrightarrow>
     \<not> is_Exception ex \<Longrightarrow>
     execute_loop cur m s = Some (Some ex, m\<lparr>eventList := es\<rparr>, s1)"
  by (subst execute_loop.simps) simp

lemma execute_loop_next_pass:
  "shouldContinue m \<Longrightarrow> poll_events cur [] (eventList m) s = (None, es, s1) \<Longrightarrow>
     execute_loop cur m s = execute_loop cur (m\<lparr>eventList := es\<rparr>) s1"
  by (subst execute_loop.simps) simp

lemma execute_stopped:
  "\<not> shouldContinue m \<Longrightarrow> execute cur m s = Some (None, m\<lparr>running := False\<rparr>, s)"
  by (simp add: execute_def execute_loop_stopped)

lemma execute_loop_clean_passes:
  "clean_passes cur n m s = Some (mk, sk) \<Longrightarrow> execute_loop cur m s = execute_loop cur mk sk"
proof (induction n arbitrary: m s)
  case 0
  then show ?case by simp
next
  case (Suc n)
  from Suc.prems have go: "shouldContinue m"
    by (simp split: if_splits)
  obtain r es s1 where p: "poll_events cur [] (eventList m) s = (r, es, s1)"
    by (metis prod_cases3)
  with Suc.prems go have r: "r = None"
    by (cases r) simp_all
  with Suc.prems go p have "clean_passes cur n (m\<lparr>eventList := es\<rparr>) s1 = Some (mk, sk)"
    by simp
  then have "execute_loop cur (m\<lparr>eventList := es\<rparr>) s1 = execute_loop cur mk sk"
    by (rule Suc.IH)
  with go p r show ?case
    by (simp add: execute_loop_next_pass)
qed

lemma poll_events_raised:
  "poll_events cur ds es s = (Some ex, es', s1) \<Longrightarrow>
     \<exists>i<length es. \<exists>si e1.
        callIfShouldCall cur (es ! i) si = (Some ex, e1, s1) \<and>
        length es' = length ds + length es \<and>
        es' ! (length ds + i) = e1 \<and>
        drop (Suc (length ds + i)) es' = drop (Suc i) es"
proof (induction es arbitrary: ds s)
  case Nil
  then show ?case by simp
next
  case (Cons e es)
  obtain r e2 s2 where c: "callIfShouldCall cur e s = (r, e2, s2)"
    by (metis prod_cases3)
  show ?case
  proof (cases r)
    case None
    with c Cons.prems have "poll_events cur (ds @ [e2]) es s2 = (Some ex, es', s1)"
      by simp
    from Cons.IH [OF this] obtain i si e1 where
      i: "i < length es" and
      ci: "callIfShouldCall cur (es ! i) si = (Some ex, e1, s1)" and
      len: "length es' = length (ds @ [e2]) + length es" and
      at: "es' ! (length (ds @ [e2]) + i) = e1" and
      rest: "drop (Suc (length (ds @ [e2]) + i)) es' = drop (Suc i) es"
      by blast
    have "Suc i < length (e # es)" using i by simp
    moreover have "callIfShouldCall cur ((e # es) ! Suc i) si = (Some ex, e1, s1)"
      using ci by simp
    moreover have "length es' = length ds + length (e # es)"
      using len by simp
    moreover have "es' ! (length ds + Suc i) = e1"
      using at by simp
    moreover have "drop (Suc (length ds + Suc i)) es' = drop (Suc (Suc i)) (e # es)"
      using rest by simp
    ultimately show ?thesis by blast
  next
    case (Some ex')
    with c Cons.prems have eq: "ex' = ex" "es' = ds @ e2 # es" "s2 = s1"
      by simp_all
    have "0 < length (e # es)" by simp
    moreover have "callIfShouldCall cur ((e # es) ! 0) s = (Some ex, e2, s1)"
      using c Some eq by simp
    moreover have "length es' = length ds + length (e # es)"
      using eq by simp
    moreover have "es' ! (length ds + 0) = e2"
      using eq by simp
    moreover have "drop (Suc (length ds + 0)) es' = drop (Suc 0) (e # es)"
      using eq by simp
    ultimately show ?thesis by blast
  qed
qed


lemma execute_loop_keeps_flag:
  assumes ended: "execute_loop cur m s = Some res"
  shows "stopInProgress (fst (snd res)) = stopInProgress m"
proof (rule execute_loop.raw_induct
    [where P = "\<lambda>cur m s res. stopInProgress (fst (snd res)) = stopInProgress m", OF _ ended],
    goal_cases)
  case (1 loop cur m s res)
  note IH = "1"(1) and body = "1"(2)
  show ?case
  proof (cases "shouldContinue m")
    case False
    with body show ?thesis by auto
  next
    case True
    obtain r es s1 where p: "poll_events cur [] (eventList m) s = (r, es, s1)"
      by (metis prod_cases3)
    show ?thesis
    proof (cases r)
      case None
      with body True p have "loop cur (m\<lparr>eventList := es\<rparr>) s1 = Some res"
        by simp
      from IH [OF this] show ?thesis by simp
    next
      case (Some ex)
      with body True p show ?thesis
        by (auto split: if_splits)
    qed
  qed
qed

lemma execute_keeps_flag:
  "execute cur m s = Some (r, m', s') \<Longrightarrow> stopInProgress m' = stopInProgress m"
proof -
  assume ex: "execute cur m s = Some (r, m', s')"
  then obtain res where l: "execute_loop cur (m\<lparr>running := True\<rparr>) s = Some res"
    by (auto simp: execute_def split: option.splits)
  from execute_loop_keeps_flag [OF l]
  have "stopInProgress (fst (snd res)) = stopInProgress m"
    by simp
  with ex l show ?thesis
    by (auto simp: execute_def split: option.splits prod.splits)
qed



subsection \<open>A captured failure stays tracked\<close>

text \<open>
  A tracked worker that holds a captured failure and has not been joined cannot leave
  the tracked collection quietly: a reap pass that raises nothing keeps it as it is,
  and a reap pass that raises keeps every worker.
\<close>

lemma joinDead_loop_keeps_failure:
  "joinDead_loop cur ds ts e s = (r, ts', e', s') \<Longrightarrow>
     ((\<exists>t\<in>set (ds @ ts). exception t \<noteq> None) \<longrightarrow> (\<exists>t\<in>set ts'. exception t \<noteq> None)) \<and>
     (r = None \<longrightarrow> (\<exists>t\<in>set (ds @ ts). exception t \<noteq> None \<and> \<not> isJoined t) \<longrightarrow>
        (\<exists>t\<in>set ts'. exception t \<noteq> None \<and> \<not> isJoined t))"
proof (induction ts arbitrary: ds e s)
  case Nil
  then show ?case by auto
next
  case (Cons t ts)
  obtain t0 e0 s0 where mr: "may_run t e s = (t0, e0, s0)"
    by (metis prod_cases3)
  from may_run_thread [OF mr] have
    t0: "isJoined t0 = isJoined t" "exception t \<noteq> None \<longrightarrow> exception t0 \<noteq> None"
    by simp_all
  show ?case
  proof (cases "alive t0")
    case True
    with Cons.prems mr have "joinDead_loop cur (ds @ [t0]) ts e0 s0 = (r, ts', e', s')"
      by simp
    from Cons.IH [OF this] t0 show ?thesis
      by auto
  next
    case False
    obtain rj t1 e1 s1 where j: "EventThread_join cur t0 e0 s0 = (rj, t1, e1, s1)"
      by (metis prod_cases4)
    from EventThread_join_thread [OF j] have
      t1: "rj = exception t1" "exception t0 \<noteq> None \<longrightarrow> exception t1 \<noteq> None"
      by simp_all
    show ?thesis
    proof (cases rj)
      case None
      with Cons.prems mr False j have "joinDead_loop cur (ds @ [t1]) ts e1 s1 = (r, ts', e', s')"
        by simp
      from Cons.IH [OF this] t0 t1 None show ?thesis
        by auto
    next
      case (Some ex)
      with Cons.prems mr False j have "r = Some ex" and "ts' = ds @ t1 # ts"
        by simp_all
      with t0 t1 show ?thesis
        by auto
    qed
  qed
qed

lemma joinDeadThreads_keeps_failure:
  assumes "joinDeadThreads cur e s = (r, e', s')"
    and "\<exists>t\<in>set (threads e). exception t \<noteq> None \<and> \<not> isJoined t"
  shows "(\<exists>t\<in>set (threads e'). exception t \<noteq> None) \<and>
     (r = None \<longrightarrow> (\<exists>t\<in>set (threads e'). exception t \<noteq> None \<and> \<not> isJoined t))"
proof -
  obtain rl ts e1 s1 where l: "joinDead_loop cur [] (threads e) e s = (rl, ts, e1, s1)"
    by (metis prod_cases4)
  from joinDead_loop_keeps_failure [OF l] assms(2) have
    kept: "\<exists>t\<in>set ts. exception t \<noteq> None"
      "rl = None \<longrightarrow> (\<exists>t\<in>set ts. exception t \<noteq> None \<and> \<not> isJoined t)"
    by auto
  show ?thesis
  proof (cases rl)
    case None
    with assms(1) l have "r = None" and "threads e' = filter (\<lambda>i. \<not> isJoined i) ts"
      by (auto simp: joinDeadThreads_def)
    with kept None show ?thesis
      by auto
  next
    case (Some ex)
    with assms(1) l have "r = Some ex" and "threads e' = ts"
      by (auto simp: joinDeadThreads_def)
    with kept show ?thesis
      by auto
  qed
qed

lemma call_keeps_workers:
  "call e b s = (r, e', s') \<Longrightarrow> set (threads e) \<subseteq> set (threads e')"
proof -
  assume c: "call e b s = (r, e', s')"
  show ?thesis
  proof (cases "spawnThread e \<and> \<not> b")
    case False
    with c invoke_event [of e s] show ?thesis
      by (auto simp: call_def)
  next
    case True
    show ?thesis
    proof (cases "fn_name (callable e)")
      case None
      with c True show ?thesis
        by (auto simp: call_def)
    next
      case (Some nm)
      obtain t1 e1 s2 where
        mr: "may_run (fst (EventThread_init s)\<lparr>alive := True\<rparr>) e (snd (EventThread_init s)) = (t1, e1, s2)"
        by (metis prod_cases3)
      from may_run_thread [OF mr] have "threads e1 = threads e"
        by simp
      with c True Some mr show ?thesis
        by (auto simp: call_def Let_def split: prod.splits)
    qed
  qed
qed

lemma callIfShouldCall_keeps_failure:
  assumes "callIfShouldCall cur e s = (r, e', s')"
    and "\<exists>t\<in>set (threads e). exception t \<noteq> None \<and> \<not> isJoined t"
  shows "(\<exists>t\<in>set (threads e'). exception t \<noteq> None) \<and>
     (r = None \<longrightarrow> (\<exists>t\<in>set (threads e'). exception t \<noteq> None \<and> \<not> isJoined t))"
proof -
  obtain due s1 where sc: "shouldCall e s = (due, s1)"
    by (metis prod.collapse)
  show ?thesis
  proof (cases due)
    case False
    with assms sc show ?thesis
      by (auto simp: callIfShouldCall_def)
  next
    case True
    obtain rc e1 s2 where c: "call e False s1 = (rc, e1, s2)"
      by (metis prod_cases3)
    from call_keeps_workers [OF c] assms(2)
    have tracked: "\<exists>t\<in>set (threads e1). exception t \<noteq> None \<and> \<not> isJoined t"
      by auto
    show ?thesis
    proof (cases rc)
      case (Inl ex)
      with assms(1) sc True c have "r = Some ex" and "e' = e1"
        by (simp_all add: callIfShouldCall_def)
      with tracked show ?thesis
        by auto
    next
      case (Inr v)
      with assms(1) sc True c have "joinDeadThreads cur e1 s2 = (r, e', s')"
        by (simp add: callIfShouldCall_def)
      from joinDeadThreads_keeps_failure [OF this tracked] show ?thesis .
    qed
  qed
qed

lemma poll_events_keeps_failure:
  "poll_events cur ds es s = (r, es', s') \<Longrightarrow>
     (\<exists>e\<in>set ds. \<exists>t\<in>set (threads e). exception t \<noteq> None) \<or>
     (\<exists>e\<in>set es. \<exists>t\<in>set (threads e). exception t \<noteq> None \<and> \<not> isJoined t) \<Longrightarrow>
     \<exists>e\<in>set es'. \<exists>t\<in>set (threads e). exception t \<noteq> None"
proof (induction es arbitrary: ds s)
  case Nil
  then show ?case by auto
next
  case (Cons e es)
  obtain rc e1 s1 where c: "callIfShouldCall cur e s = (rc, e1, s1)"
    by (metis prod_cases3)
  have head: "\<exists>t\<in>set (threads e1). exception t \<noteq> None"
    if "\<exists>t\<in>set (threads e). exception t \<noteq> None \<and> \<not> isJoined t"
    using callIfShouldCall_keeps_failure [OF c that] by simp
  show ?case
  proof (cases rc)
    case None
    with c Cons.prems(1) have next_call: "poll_events cur (ds @ [e1]) es s1 = (r, es', s')"
      by simp
    from Cons.prems(2) consider
      (polled) e0 where "e0 \<in> set ds" "\<exists>t\<in>set (threads e0). exception t \<noteq> None"
      | (this_one) "\<exists>t\<in>set (threads e). exception t \<noteq> None \<and> \<not> isJoined t"
      | (to_poll) "\<exists>e\<in>set es. \<exists>t\<in>set (threads e). exception t \<noteq> None \<and> \<not> isJoined t"
      by (blast dest: set_ConsD)
    then have
      "(\<exists>e\<in>set (ds @ [e1]). \<exists>t\<in>set (threads e). exception t \<noteq> None) \<or>
       (\<exists>e\<in>set es. \<exists>t\<in>set (threads e). exception t \<noteq> None \<and> \<not> isJoined t)"
    proof cases
      case polled
      then have "e0 \<in> set (ds @ [e1])" by simp
      with polled show ?thesis by blast
    next
      case this_one
      then have "\<exists>t\<in>set (threads e1). exception t \<noteq> None" by (rule head)
      moreover have "e1 \<in> set (ds @ [e1])" by simp
      ultimately show ?thesis by blast
    next
      case to_poll
      then show ?thesis by blast
    qed
    with next_call show ?thesis
      by (rule Cons.IH)
  next
    case (Some ex)
    with c Cons.prems(1) have es': "es' = ds @ e1 # es"
      by simp
    from Cons.prems(2) consider
      (polled) e0 where "e0 \<in> set ds" "\<exists>t\<in>set (threads e0). exception t \<noteq> None"
      | (this_one) "\<exists>t\<in>set (threads e). exception t \<noteq> None \<and> \<not> isJoined t"
      | (to_poll) e0 where "e0 \<in> set es"
          "\<exists>t\<in>set (threads e0). exception t \<noteq> None \<and> \<not> isJoined t"
      by (blast dest: set_ConsD)
    then show ?thesis
    proof cases
      case polled
      then have "e0 \<in> set es'" using es' by simp
      with polled show ?thesis by blast
    next
      case this_one
      then have "\<exists>t\<in>set (threads e1). exception t \<noteq> None" by (rule head)
      moreover have "e1 \<in> set es'" using es' by simp
      ultimately show ?thesis by blast
    next
      case to_poll
      then have "e0 \<in> set es'" using es' by simp
      with to_poll show ?thesis by blast
    qed
  qed
qed

subsection \<open>What \<open>stop\<close> does when no other stop is in progress\<close>

lemma driver_join_stopped:
  assumes "\<not> shouldContinue m"
  shows "\<exists>r m' s'. driver_join cur t m s = Some (r, m', s') \<and>
        stopInProgress m' = stopInProgress m \<and>
        (childException m \<noteq> None \<longrightarrow> childException m' \<noteq> None) \<and>
        (r = None \<and> ident t \<noteq> cur \<or> r = Some RuntimeError \<and> ident t = cur) \<and>
        ((\<exists>e\<in>set (eventList m). \<exists>t\<in>set (threads e). exception t \<noteq> None \<and> \<not> isJoined t) \<longrightarrow>
         (\<exists>e\<in>set (eventList m'). \<exists>t\<in>set (threads e). exception t \<noteq> None))"
proof (cases "ident t = cur \<or> \<not> alive t")
  case True
  then show ?thesis
    by (auto simp: driver_join_def)
next
  case False
  show ?thesis
  proof (cases "progress t")
    case None
    with False assms show ?thesis
      by (auto simp: driver_join_def execute_stopped)
  next
    case (Some i)
    obtain r es s1 where
      p: "poll_events (ident t) (take i (eventList m)) (drop i (eventList m)) s = (r, es, s1)"
      by (metis prod_cases3)
    have kept: "\<exists>e\<in>set es. \<exists>t\<in>set (threads e). exception t \<noteq> None"
      if w: "\<exists>e\<in>set (eventList m). \<exists>t\<in>set (threads e). exception t \<noteq> None \<and> \<not> isJoined t"
    proof -
      have split: "set (eventList m) = set (take i (eventList m)) \<union> set (drop i (eventList m))"
        by (metis append_take_drop_id set_append)
      from w obtain e where e: "e \<in> set (eventList m)"
        and failed: "\<exists>t\<in>set (threads e). exception t \<noteq> None \<and> \<not> isJoined t"
        by blast
      from e split consider "e \<in> set (take i (eventList m))" | "e \<in> set (drop i (eventList m))"
        by blast
      then have "(\<exists>e\<in>set (take i (eventList m)). \<exists>t\<in>set (threads e). exception t \<noteq> None) \<or>
          (\<exists>e\<in>set (drop i (eventList m)). \<exists>t\<in>set (threads e). exception t \<noteq> None \<and> \<not> isJoined t)"
        using failed by cases blast+
      with p show ?thesis
        by (rule poll_events_keeps_failure)
    qed
    have rest: "execute_loop (ident t) (m\<lparr>eventList := es\<rparr>) s1
        = Some (None, m\<lparr>eventList := es\<rparr>, s1)"
      using assms by (simp add: execute_loop_stopped)
    from False Some p rest kept show ?thesis
      by (cases r) (auto simp: driver_join_def execute_resume_def)
  qed
qed

lemma stop_unfolded:
  assumes "\<not> stopInProgress m"
  shows "\<exists>r0 m3 s1.
     stopInProgress m3 \<and>
     (childException m \<noteq> None \<longrightarrow> childException m3 \<noteq> None) \<and>
     (r0 = None \<and> \<not> (\<exists>t. thread m = Some t \<and> ident t = cur) \<or>
      r0 = Some RuntimeError \<and> (\<exists>t. thread m = Some t \<and> ident t = cur)) \<and>
     ((\<exists>e\<in>set (eventList m). \<exists>t\<in>set (threads e). exception t \<noteq> None \<and> \<not> isJoined t) \<longrightarrow>
      (\<exists>e\<in>set (eventList m3). \<exists>t\<in>set (threads e). exception t \<noteq> None)) \<and>
     stop cur m s =
       (case r0 of
          Some ex \<Rightarrow> Some (Some ex, m3, s1)
        | None \<Rightarrow>
            (case join_events cur [] (eventList m3) s1 of
               (Some ex, es, s2) \<Rightarrow> Some (Some ex, m3\<lparr>eventList := es\<rparr>, s2)
             | (None, es, s2) \<Rightarrow>
                 Some (None, m3\<lparr>eventList := es, stopInProgress := False\<rparr>, s2)))"
proof (cases "thread m")
  case None
  let ?m2 = "m\<lparr>stopInProgress := True, shouldContinue := False\<rparr>"
  have "stop cur m s =
       (case (None :: exn option) of
          Some ex \<Rightarrow> Some (Some ex, ?m2, s)
        | None \<Rightarrow>
            (case join_events cur [] (eventList ?m2) s of
               (Some ex, es, s2) \<Rightarrow> Some (Some ex, ?m2\<lparr>eventList := es\<rparr>, s2)
             | (None, es, s2) \<Rightarrow>
                 Some (None, ?m2\<lparr>eventList := es, stopInProgress := False\<rparr>, s2)))"
    using assms None by (simp add: stop_def Let_def)
  moreover have "stopInProgress ?m2"
    and "childException m \<noteq> None \<longrightarrow> childException ?m2 \<noteq> None"
    by simp_all
  moreover have
    "(\<exists>e\<in>set (eventList m). \<exists>t\<in>set (threads e). exception t \<noteq> None \<and> \<not> isJoined t) \<longrightarrow>
     (\<exists>e\<in>set (eventList ?m2). \<exists>t\<in>set (threads e). exception t \<noteq> None)"
    by auto
  moreover from None have "\<not> (\<exists>t. thread m = Some t \<and> ident t = cur)"
    by simp
  ultimately show ?thesis by blast
next
  case (Some t)
  let ?m2 = "m\<lparr>stopInProgress := True, shouldContinue := False\<rparr>"
  have "\<not> shouldContinue ?m2" by simp
  from driver_join_stopped [OF this, of cur t s] obtain r0 m3 s1 where
    d: "driver_join cur t ?m2 s = Some (r0, m3, s1)" and
    flag0: "stopInProgress m3 = stopInProgress ?m2" and
    child0: "childException ?m2 \<noteq> None \<longrightarrow> childException m3 \<noteq> None" and
    r0: "r0 = None \<and> ident t \<noteq> cur \<or> r0 = Some RuntimeError \<and> ident t = cur" and
    kept0: "(\<exists>e\<in>set (eventList ?m2). \<exists>t\<in>set (threads e). exception t \<noteq> None \<and> \<not> isJoined t) \<longrightarrow>
      (\<exists>e\<in>set (eventList m3). \<exists>t\<in>set (threads e). exception t \<noteq> None)"
    by blast
  from flag0 have flag: "stopInProgress m3"
    by simp
  from child0 have child: "childException m \<noteq> None \<longrightarrow> childException m3 \<noteq> None"
    by simp
  from kept0 have
    kept: "(\<exists>e\<in>set (eventList m). \<exists>t\<in>set (threads e). exception t \<noteq> None \<and> \<not> isJoined t) \<longrightarrow>
      (\<exists>e\<in>set (eventList m3). \<exists>t\<in>set (threads e). exception t \<noteq> None)"
    by simp
  have "stop cur m s =
       (case r0 of
          Some ex \<Rightarrow> Some (Some ex, m3, s1)
        | None \<Rightarrow>
            (case join_events cur [] (eventList m3) s1 of
               (Some ex, es, s2) \<Rightarrow> Some (Some ex, m3\<lparr>eventList := es\<rparr>, s2)
             | (None, es, s2) \<Rightarrow>
                 Some (None, m3\<lparr>eventList := es, stopInProgress := False\<rparr>, s2)))"
    using assms Some d by (simp add: stop_def Let_def split: option.splits)
  moreover from r0 Some have
    "r0 = None \<and> \<not> (\<exists>t. thread m = Some t \<and> ident t = cur) \<or>
     r0 = Some RuntimeError \<and> (\<exists>t. thread m = Some t \<and> ident t = cur)"
    by auto
  ultimately show ?thesis
    using flag child kept by blast
qed

lemma stop_returns:
  "\<exists>r m' s'. stop cur m s = Some (r, m', s')"
proof (cases "stopInProgress m")
  case True
  then show ?thesis by (simp add: stop_def)
next
  case False
  from stop_unfolded [OF False, of cur s] show ?thesis
    by (auto split: option.splits prod.splits)
qed

lemma later_keeps_flag:
  "later m m' \<Longrightarrow> stopInProgress m \<Longrightarrow> stopInProgress m'"
proof (induction rule: later.induct)
  case later_now
  then show ?case by simp
next
  case (later_addEvent m1 f tbc cb)
  then show ?case by (simp add: addEvent_def)
next
  case (later_start m1 d s m2 s')
  then show ?case by (auto simp: start_def Thread_init_def Let_def)
next
  case (later_stop m1 cur s r m2 s')
  then show ?case by (simp add: stop_def)
next
  case (later_execute m1 cur s r m2 s')
  then show ?case by (simp add: execute_keeps_flag)
qed








text \<open>
  C10. When \<open>stop\<close> raises, the stop-in-progress flag is set in the manager it leaves
  behind. No method resets the flag, so it stays set whatever is called afterwards, and
  every later \<open>stop\<close> returns at once without joining anything.
\<close>

theorem stop_failure_leaves_flag_set:
  assumes "stop cur m s = Some (Some ex, m1, s1)"
  shows "stopInProgress m1 \<and>
     (\<forall>m2. later m1 m2 \<longrightarrow>
        stopInProgress m2 \<and> (\<forall>cur' s2. stop cur' m2 s2 = Some (None, m2, s2)))"
proof -
  have idle: "\<not> stopInProgress m"
    using assms by (auto simp: stop_def)
  from stop_unfolded [OF idle, of cur s] obtain r0 m3 s3 where
    flag: "stopInProgress m3" and
    st: "stop cur m s =
       (case r0 of
          Some ex \<Rightarrow> Some (Some ex, m3, s3)
        | None \<Rightarrow>
            (case join_events cur [] (eventList m3) s3 of
               (Some ex, es, s2) \<Rightarrow> Some (Some ex, m3\<lparr>eventList := es\<rparr>, s2)
             | (None, es, s2) \<Rightarrow>
                 Some (None, m3\<lparr>eventList := es, stopInProgress := False\<rparr>, s2)))"
    by blast
  have set1: "stopInProgress m1"
  proof (cases r0)
    case (Some ex0)
    with st assms flag show ?thesis by simp
  next
    case None
    obtain r es s2 where j: "join_events cur [] (eventList m3) s3 = (r, es, s2)"
      by (metis prod_cases3)
    with st assms None flag show ?thesis
      by (cases r) auto
  qed
  have "stopInProgress m2 \<and> (\<forall>cur' s2. stop cur' m2 s2 = Some (None, m2, s2))"
    if "later m1 m2" for m2
  proof -
    from later_keeps_flag [OF that set1] have "stopInProgress m2" .
    then show ?thesis by (simp add: stop_def)
  qed
  with set1 show ?thesis by blast
qed

theorem stop_failure_leaves_flag_set_witness:
  "\<exists>m1 s1. stop 0 (managing [tracking [finished_boom 7]]) (sys_at 0)
        = Some (Some (Exception ''BoomError''), m1, s1) \<and>
     stopInProgress m1 \<and>
     stop 0 (fst (start False m1 s1)) s1 = Some (None, fst (start False m1 s1), s1)"
proof -
  obtain r m1 s1 where st: "stop 0 (managing [tracking [finished_boom 7]]) (sys_at 0) = Some (r, m1, s1)"
    using stop_returns by blast
  then have r: "r = Some (Exception ''BoomError'')"
    by (simp add: stop_def managing_def EventManager_init_def Event_join_def
        EventThread_join_def Thread_join_def tracking_def Event_init_def finished_boom_def
        Let_def)
  have "later m1 (fst (start False m1 s1))"
    by (rule later_start [OF later_now, of False m1 s1 _ "snd (start False m1 s1)"]) simp
  with stop_failure_leaves_flag_set [OF st [unfolded r]] st r
  show ?thesis by blast
qed

subsection \<open>Failures inside the driver loop\<close>

text \<open>
  C2 (as amended). Whenever a task's \<open>callIfShouldCall\<close> raises an instance of
  \<^verbatim>\<open>Exception\<close> during a pass of the driver loop (any pass: \<open>n\<close> passes went by without
  a raise before it), the loop stores that exception as the child failure, leaves the
  tasks after the raising one untouched, ends, and \<open>execute\<close> returns with the running
  flag false. (An exception that is not an instance of \<^verbatim>\<open>Exception\<close> is not caught
  by the loop.)
\<close>

theorem execute_stores_Exception:
  assumes "clean_passes cur n (m\<lparr>running := True\<rparr>) s = Some (mk, sk)"
    and "shouldContinue mk"
    and "poll_events cur [] (eventList mk) sk = (Some ex, es, s1)"
    and "is_Exception ex"
  shows "execute cur m s =
       Some (None, mk\<lparr>eventList := es, childException := Some ex, running := False\<rparr>, s1) \<and>
     (\<exists>i<length (eventList mk). \<exists>si e1.
        callIfShouldCall cur (eventList mk ! i) si = (Some ex, e1, s1) \<and>
        length es = length (eventList mk) \<and> es ! i = e1 \<and>
        drop (Suc i) es = drop (Suc i) (eventList mk))"
proof -
  have "execute_loop cur (m\<lparr>running := True\<rparr>) s = execute_loop cur mk sk"
    using assms(1) by (rule execute_loop_clean_passes)
  also have "\<dots> = Some (None, mk\<lparr>eventList := es, childException := Some ex\<rparr>, s1)"
    using assms(2-4) by (rule execute_loop_Exception)
  finally have "execute cur m s =
      Some (None, mk\<lparr>eventList := es, childException := Some ex, running := False\<rparr>, s1)"
    by (simp add: execute_def)
  moreover from poll_events_raised [OF assms(3)]
  have "\<exists>i<length (eventList mk). \<exists>si e1.
        callIfShouldCall cur (eventList mk ! i) si = (Some ex, e1, s1) \<and>
        length es = length (eventList mk) \<and> es ! i = e1 \<and>
        drop (Suc i) es = drop (Suc i) (eventList mk)"
    by simp
  ultimately show ?thesis by blast
qed

theorem execute_stores_Exception_witness:
  "(\<exists>mk sk es s1.
      clean_passes 1 1 (two_tasks\<lparr>running := True\<rparr>) (sys_at 1762000000) = Some (mk, sk) \<and>
      shouldContinue mk \<and>
      poll_events 1 [] (eventList mk) sk = (Some (Exception ''BoomError''), es, s1) \<and>
      is_Exception (Exception ''BoomError'')) \<and>
   map_option (childException \<circ> fst \<circ> snd) (execute 1 two_tasks (sys_at 1762000000))
     = Some (Some (Exception ''BoomError'')) \<and>
   map_option (running \<circ> fst \<circ> snd) (execute 1 two_tasks (sys_at 1762000000)) = Some False \<and>
   map_option (world \<circ> snd \<circ> snd) (execute 1 two_tasks (sys_at 1762000000)) = Some 3"
proof -
  note defs = two_tasks_def addEvent_def EventManager_init_def Event_init_def sys_at_def
    flaky_def counting_def callIfShouldCall_def shouldCall_def float_add_def time_time_def
    call_def invoke_def run_user_def joinDeadThreads_def Let_def
  define mk where
    "mk = fst (the (clean_passes 1 1 (two_tasks\<lparr>running := True\<rparr>) (sys_at 1762000000)))"
  define sk where
    "sk = snd (the (clean_passes 1 1 (two_tasks\<lparr>running := True\<rparr>) (sys_at 1762000000)))"
  define es where "es = fst (snd (poll_events 1 [] (eventList mk) sk))"
  define s1 where "s1 = snd (snd (poll_events 1 [] (eventList mk) sk))"
  have first: "clean_passes 1 1 (two_tasks\<lparr>running := True\<rparr>) (sys_at 1762000000) = Some (mk, sk)"
    by (simp add: mk_def sk_def defs)
  have go: "shouldContinue mk"
    by (simp add: mk_def defs)
  have second: "poll_events 1 [] (eventList mk) sk = (Some (Exception ''BoomError''), es, s1)"
    by (simp add: es_def s1_def mk_def sk_def defs)
  have kind: "is_Exception (Exception ''BoomError'')"
    by simp
  have counted: "world s1 = 3"
    by (simp add: s1_def mk_def sk_def defs)
  from execute_stores_Exception [OF first go second kind]
  have ended: "execute 1 two_tasks (sys_at 1762000000) =
      Some (None, mk\<lparr>eventList := es, childException := Some (Exception ''BoomError''),
        running := False\<rparr>, s1)"
    by (rule conjunct1)
  have "\<exists>mk sk es s1.
      clean_passes 1 1 (two_tasks\<lparr>running := True\<rparr>) (sys_at 1762000000) = Some (mk, sk) \<and>
      shouldContinue mk \<and>
      poll_events 1 [] (eventList mk) sk = (Some (Exception ''BoomError''), es, s1) \<and>
      is_Exception (Exception ''BoomError'')"
    using first go second kind by blast
  moreover have
    "map_option (childException \<circ> fst \<circ> snd) (execute 1 two_tasks (sys_at 1762000000))
       = Some (Some (Exception ''BoomError''))"
    "map_option (running \<circ> fst \<circ> snd) (execute 1 two_tasks (sys_at 1762000000)) = Some False"
    "map_option (world \<circ> snd \<circ> snd) (execute 1 two_tasks (sys_at 1762000000)) = Some 3"
    unfolding ended by (simp_all add: counted)
  ultimately show ?thesis by blast
qed

text \<open>
  C2 as stated fails for an exception outside \<^verbatim>\<open>Exception\<close>. The only task runs
  synchronously and its callable raises \<^verbatim>\<open>SystemExit\<close>: the exception leaves
  \<open>execute\<close>, the child failure stays empty and the running flag stays true.
\<close>

theorem execute_misses_SystemExit:
  "map_option fst (execute 1 exit_task (sys_at 1762000000))
     = Some (Some (BaseException ''SystemExit'')) \<and>
   map_option (childException \<circ> fst \<circ> snd) (execute 1 exit_task (sys_at 1762000000)) = Some None \<and>
   map_option (running \<circ> fst \<circ> snd) (execute 1 exit_task (sys_at 1762000000)) = Some True"
proof -
  note defs = exit_task_def addEvent_def EventManager_init_def Event_init_def sys_at_def
    exiting_def callIfShouldCall_def shouldCall_def float_add_def time_time_def call_def
    invoke_def run_user_def Let_def
  let ?m = "exit_task\<lparr>running := True\<rparr>"
  let ?es = "fst (snd (poll_events 1 [] (eventList ?m) (sys_at 1762000000)))"
  let ?s1 = "snd (snd (poll_events 1 [] (eventList ?m) (sys_at 1762000000)))"
  have go: "shouldContinue ?m"
    by (simp add: defs)
  have raised: "poll_events 1 [] (eventList ?m) (sys_at 1762000000)
      = (Some (BaseException ''SystemExit''), ?es, ?s1)"
    by (simp add: defs)
  have "execute_loop 1 ?m (sys_at 1762000000)
      = Some (Some (BaseException ''SystemExit''), ?m\<lparr>eventList := ?es\<rparr>, ?s1)"
    using go raised by (rule execute_loop_escapes) simp
  then have "execute 1 exit_task (sys_at 1762000000)
      = Some (Some (BaseException ''SystemExit''), ?m\<lparr>eventList := ?es\<rparr>, ?s1)"
    by (simp add: execute_def)
  then show ?thesis
    by (simp add: exit_task_def addEvent_def EventManager_init_def)
qed

end
